theory Spec2Isabelle
  imports Complex_Main "HOL-Library.Word"
begin

section \<open>The ciphertext container of \<^verbatim>\<open>src/ciphertext.h\<close>\<close>

text \<open>
  The class \<^verbatim>\<open>troy::Ciphertext\<close> stores a ciphertext as a flat array of unsigned 64-bit
  words together with its layout metadata. Member functions that mutate the object are
  modelled by explicit state passing; a function that can throw returns a sum whose left
  injection is the error. \<^verbatim>\<open>std::size_t\<close> is a 64-bit word, so that the unchecked
  product in \<^verbatim>\<open>sizeCapacity\<close> wraps around as it does in the program.
\<close>

subsection \<open>Scalars, errors and pointers\<close>

type_synonym size_t = "64 word"
type_synonym ct_coeff_type = "64 word"

text \<open>
  Modelled from the spec: \<^verbatim>\<open>ParmsID\<close> and \<^verbatim>\<open>parmsIDZero\<close> are declared outside the
  header. The identifier is "an opaque, equality-comparable fixed-width fingerprint" with
  "a reserved all-zero value"; the width chosen here is four 64-bit words.
\<close>

type_synonym ParmsID = "256 word"

definition parmsIDZero :: ParmsID where
  "parmsIDZero = 0"

text \<open>
  The error kinds are those of the spec's taxonomy. \<open>Undefined\<close> is not an exception: it
  marks an execution in which the program reads through a null pointer or outside the
  logical contents of the backing array, where C++ assigns no behaviour.
\<close>

datatype error = InvalidArgument | Overflow | OutOfRange | LogicError | Undefined

text \<open>
  A \<^verbatim>\<open>ct_coeff_type *\<close> returned by the container is either \<^verbatim>\<open>nullptr\<close> or
  \<^verbatim>\<open>data_.begin() + off\<close>, recorded by the offset \<open>off\<close> in words.
\<close>

datatype pointer = Null | Elem nat

text \<open>
  Modelled from the spec: \<^verbatim>\<open>SEAL_CIPHERTEXT_SIZE_MIN\<close> comes from
  \<^verbatim>\<open>utils/defines.h\<close>; the spec gives "the scheme minimum (2)".
\<close>

definition SEAL_CIPHERTEXT_SIZE_MIN :: size_t where
  "SEAL_CIPHERTEXT_SIZE_MIN = 2"

text \<open>
  Modelled from the spec: \<^verbatim>\<open>util::mul_safe\<close> comes from \<^verbatim>\<open>utils/common.h\<close>. The
  product is computed "with explicit overflow checking (fails Overflow, not silent
  wraparound)" over the address-size type.
\<close>

definition mul_safe :: "size_t \<Rightarrow> size_t \<Rightarrow> error + size_t" where
  "mul_safe a b = (if unat a * unat b < 2 ^ 64 then Inr (a * b) else Inl Overflow)"

text \<open>\<^verbatim>\<open>util::isZero<ct_coeff_type>\<close>, the predicate handed to \<^verbatim>\<open>std::all_of\<close>.\<close>

definition isZero :: "ct_coeff_type \<Rightarrow> bool" where
  "isZero x = (x = 0)"

subsection \<open>The backing array\<close>

text \<open>
  Modelled from the spec: \<^verbatim>\<open>util::HostDynamicArray\<close> is defined outside the header. It
  is "an owned, contiguous, resizable array of unsigned 64-bit words, with independent
  notions of logical size and allocated capacity". \<open>elems\<close> is the logical contents
  (\<^verbatim>\<open>[begin(), end())\<close>), \<open>capacity_'\<close> the allocated length in words.
\<close>

record HostDynamicArray =
  capacity_' :: size_t
  elems :: "ct_coeff_type list"

definition arr_empty :: HostDynamicArray where
  "arr_empty = \<lparr>capacity_' = 0, elems = []\<rparr>"

definition arr_size :: "HostDynamicArray \<Rightarrow> nat" where
  "arr_size a = length (elems a)"

definition arr_capacity :: "HostDynamicArray \<Rightarrow> size_t" where
  "arr_capacity a = capacity_' a"

text \<open>\<^verbatim>\<open>data_.release()\<close>: the buffer is freed, leaving size and capacity zero.\<close>

definition arr_release :: "HostDynamicArray \<Rightarrow> HostDynamicArray" where
  "arr_release a = arr_empty"

text \<open>\<^verbatim>\<open>data_.at(index)\<close>: the bounds-checked element access.\<close>

definition arr_at :: "HostDynamicArray \<Rightarrow> size_t \<Rightarrow> error + ct_coeff_type" where
  "arr_at a index =
     (if unat index \<ge> arr_size a then Inl OutOfRange else Inr (elems a ! unat index))"

text \<open>\<^verbatim>\<open>data_.cend()\<close> as an offset from \<^verbatim>\<open>data_.begin()\<close>.\<close>

definition arr_cend :: "HostDynamicArray \<Rightarrow> nat" where
  "arr_cend a = length (elems a)"

subsection \<open>The ciphertext\<close>

text \<open>
  The private members of the class, in declaration order. The container only stores and
  returns \<^verbatim>\<open>scale_\<close>, so the \<^verbatim>\<open>double\<close> is a real number here.
\<close>

record Ciphertext =
  parms_id_' :: ParmsID
  is_ntt_form_' :: bool
  size_' :: size_t
  poly_modulus_degree_' :: size_t
  coeff_modulus_size_' :: size_t
  scale_' :: real
  correction_factor_' :: "64 word"
  data_' :: HostDynamicArray

text \<open>\<^verbatim>\<open>Ciphertext() : data_() {}\<close> with the default member initialisers.\<close>

definition Ciphertext_default :: Ciphertext where
  "Ciphertext_default =
     \<lparr>parms_id_' = parmsIDZero, is_ntt_form_' = False, size_' = 0,
      poly_modulus_degree_' = 0, coeff_modulus_size_' = 0, scale_' = 1,
      correction_factor_' = 1, data_' = arr_empty\<rparr>"

text \<open>The read accessors; \<^verbatim>\<open>size()\<close> is \<open>size_ct\<close>.\<close>

definition coeffModulusSize :: "Ciphertext \<Rightarrow> size_t" where
  "coeffModulusSize c = coeff_modulus_size_' c"

definition polyModulusDegree :: "Ciphertext \<Rightarrow> size_t" where
  "polyModulusDegree c = poly_modulus_degree_' c"

definition size_ct :: "Ciphertext \<Rightarrow> size_t" where
  "size_ct c = size_' c"

definition isNttForm :: "Ciphertext \<Rightarrow> bool" where
  "isNttForm c = is_ntt_form_' c"

definition parmsID :: "Ciphertext \<Rightarrow> ParmsID" where
  "parmsID c = parms_id_' c"

definition scale :: "Ciphertext \<Rightarrow> real" where
  "scale c = scale_' c"

definition correctionFactor :: "Ciphertext \<Rightarrow> 64 word" where
  "correctionFactor c = correction_factor_' c"

text \<open>\<^verbatim>\<open>release()\<close>, assignment by assignment.\<close>

definition release :: "Ciphertext \<Rightarrow> Ciphertext" where
  "release c =
     c\<lparr>parms_id_' := parmsIDZero, is_ntt_form_' := False, size_' := 0,
       poly_modulus_degree_' := 0, coeff_modulus_size_' := 0, scale_' := 1,
       correction_factor_' := 1, data_' := arr_release (data_' c)\<rparr>"

text \<open>
  \<^verbatim>\<open>sizeCapacity()\<close>: the product is a plain \<^verbatim>\<open>std::size_t\<close> multiplication and the
  function is \<^verbatim>\<open>noexcept\<close>.
\<close>

definition sizeCapacity :: "Ciphertext \<Rightarrow> size_t" where
  "sizeCapacity c =
     (let poly_uint64_count = poly_modulus_degree_' c * coeff_modulus_size_' c
      in if poly_uint64_count \<noteq> 0 then arr_capacity (data_' c) div poly_uint64_count else 0)"

text \<open>
  \<^verbatim>\<open>data(poly_index)\<close>: the checks in the order of the source. The product is tested
  for zero before the index is tested against the size. The \<^verbatim>\<open>safe_cast\<close> to
  \<^verbatim>\<open>std::size_t\<close> of a value that already has this type changes nothing. The const and
  the non-const overload have the same body.
\<close>

definition data :: "Ciphertext \<Rightarrow> size_t \<Rightarrow> error + pointer" where
  "data c poly_index =
     (case mul_safe (poly_modulus_degree_' c) (coeff_modulus_size_' c) of
        Inl e \<Rightarrow> Inl e
      | Inr poly_uint64_count \<Rightarrow>
          if poly_uint64_count = 0 then Inr Null
          else if poly_index \<ge> size_' c then Inl OutOfRange
          else (case mul_safe poly_index poly_uint64_count of
                  Inl e \<Rightarrow> Inl e
                | Inr off \<Rightarrow> Inr (Elem (unat off))))"

text \<open>\<^verbatim>\<open>operator[](coeff_index)\<close> forwards to \<^verbatim>\<open>data_.at\<close>.\<close>

definition coeff_at :: "Ciphertext \<Rightarrow> size_t \<Rightarrow> error + ct_coeff_type" where
  "coeff_at c coeff_index = arr_at (data_' c) coeff_index"

text \<open>
  Assignment through the reference returned by the mutable \<^verbatim>\<open>operator[]\<close>:
  \<^verbatim>\<open>ct[coeff_index] = v\<close>.
\<close>

definition coeff_assign :: "Ciphertext \<Rightarrow> size_t \<Rightarrow> ct_coeff_type \<Rightarrow> error + Ciphertext" where
  "coeff_assign c coeff_index v =
     (if unat coeff_index \<ge> arr_size (data_' c) then Inl OutOfRange
      else Inr (c\<lparr>data_' := (data_' c)\<lparr>elems := (elems (data_' c))[unat coeff_index := v]\<rparr>\<rparr>))"

text \<open>
  \<^verbatim>\<open>isTransparent()\<close>: the two guards short-circuit; otherwise \<^verbatim>\<open>std::all_of\<close> runs
  from \<^verbatim>\<open>data(1)\<close> to \<^verbatim>\<open>data_.cend()\<close>. A null first iterator, or one past the end, is
  outside what C++ defines.
\<close>

definition isTransparent :: "Ciphertext \<Rightarrow> error + bool" where
  "isTransparent c =
     (if arr_size (data_' c) = 0 \<or> size_' c < SEAL_CIPHERTEXT_SIZE_MIN then Inr True
      else (case data c 1 of
              Inl e \<Rightarrow> Inl e
            | Inr Null \<Rightarrow> Inl Undefined
            | Inr (Elem off) \<Rightarrow>
                if off \<le> arr_cend (data_' c)
                then Inr (list_all isZero (drop off (elems (data_' c))))
                else Inl Undefined))"

text \<open>
  \<^verbatim>\<open>hasSeedMarker()\<close>: \<^verbatim>\<open>data(1)[0]\<close> reads the word the returned pointer designates.
  An exception escaping \<^verbatim>\<open>data(1)\<close> ends the \<^verbatim>\<open>noexcept\<close> function abnormally and is
  reported as the error.
\<close>

definition hasSeedMarker :: "Ciphertext \<Rightarrow> error + bool" where
  "hasSeedMarker c =
     (if arr_size (data_' c) \<noteq> 0 \<and> size_' c = 2
      then (case data c 1 of
              Inl e \<Rightarrow> Inl e
            | Inr Null \<Rightarrow> Inl Undefined
            | Inr (Elem off) \<Rightarrow>
                if off < arr_size (data_' c)
                then Inr (elems (data_' c) ! off = 0xFFFFFFFFFFFFFFFF)
                else Inl Undefined)
      else Inr False)"

subsection \<open>Reserve and resize\<close>

text \<open>
  Modelled from the spec: \<^verbatim>\<open>SEALContext\<close> is declared in \<^verbatim>\<open>context.h\<close>. The
  parameter registry "maps an opaque parameter-set identifier to a polynomial degree N and
  a count K of coefficient-modulus primes; exposes a default/highest identifier". An
  identifier the registry does not know is mapped to \<open>None\<close>.
\<close>

record SEALContext =
  get_parms :: "ParmsID \<Rightarrow> (size_t \<times> size_t) option"
  firstParmsID :: ParmsID

text \<open>
  A member function that mutates the object and may throw returns the error, if any,
  together with the state of the object after the call.

  Modelled from the spec: \<^verbatim>\<open>HostDynamicArray::reserve\<close> is defined outside the header.
  "If the computed allocation exceeds current capacity, reallocates a new buffer of that
  size and copies the existing words into it; otherwise reuses the existing buffer."
\<close>

definition arr_reserve :: "HostDynamicArray \<Rightarrow> size_t \<Rightarrow> HostDynamicArray" where
  "arr_reserve a new_capacity =
     (if arr_capacity a < new_capacity then a\<lparr>capacity_' := new_capacity\<rparr> else a)"

text \<open>
  Modelled from the spec: \<^verbatim>\<open>HostDynamicArray::resize\<close> is defined outside the header.
  "Coefficients newly brought into the logical view are zero-initialized. Shrinking
  preserves the first polynomials' contents and simply excludes the rest from the logical
  view."
\<close>

definition arr_resize :: "HostDynamicArray \<Rightarrow> size_t \<Rightarrow> HostDynamicArray" where
  "arr_resize a new_size =
     (arr_reserve a new_size)
       \<lparr>elems := take (unat new_size) (elems a) @ replicate (unat new_size - length (elems a)) 0\<rparr>"

text \<open>
  Modelled from the spec: \<^verbatim>\<open>reserveInternal\<close> is declared in the header and defined in
  \<^verbatim>\<open>ciphertext.cpp\<close>. A capacity below 2 is an invalid argument; the product
  \<open>capacity * N * K\<close> is computed with overflow checking; reserving for a different
  \<open>(N, K)\<close> while polynomials are present is rejected (the error taxonomy lists it under
  InvalidArgument); all checks precede the first mutation. A request that does not exceed
  the current allocation reuses the buffer, so a capacity below the current size neither
  fails nor shrinks anything.
\<close>

definition reserveInternal ::
  "size_t \<Rightarrow> size_t \<Rightarrow> size_t \<Rightarrow> Ciphertext \<Rightarrow> error option \<times> Ciphertext" where
  "reserveInternal size_capacity poly_modulus_degree coeff_modulus_size c =
     (if size_capacity < SEAL_CIPHERTEXT_SIZE_MIN then (Some InvalidArgument, c)
      else (case mul_safe poly_modulus_degree coeff_modulus_size of
              Inl e \<Rightarrow> (Some e, c)
            | Inr poly_uint64_count \<Rightarrow>
                (case mul_safe size_capacity poly_uint64_count of
                   Inl e \<Rightarrow> (Some e, c)
                 | Inr new_data_capacity \<Rightarrow>
                     if size_' c \<noteq> 0
                        \<and> (poly_modulus_degree \<noteq> poly_modulus_degree_' c
                           \<or> coeff_modulus_size \<noteq> coeff_modulus_size_' c)
                     then (Some InvalidArgument, c)
                     else (None, c\<lparr>poly_modulus_degree_' := poly_modulus_degree,
                                   coeff_modulus_size_' := coeff_modulus_size,
                                   data_' := arr_reserve (data_' c) new_data_capacity\<rparr>))))"

text \<open>
  Modelled from the spec: \<^verbatim>\<open>reserve(context, parms_id, size_capacity)\<close> is declared in
  the header and defined in \<^verbatim>\<open>ciphertext.cpp\<close>. It "looks up (N, K) for parameter_id
  (fails InvalidArgument if unknown)" and, after the reservation, "updates degree,
  modulus_count, parameter_id".
\<close>

definition reserve ::
  "SEALContext \<Rightarrow> ParmsID \<Rightarrow> size_t \<Rightarrow> Ciphertext \<Rightarrow> error option \<times> Ciphertext" where
  "reserve ctx parms_id size_capacity c =
     (case get_parms ctx parms_id of
        None \<Rightarrow> (Some InvalidArgument, c)
      | Some (poly_modulus_degree, coeff_modulus_size) \<Rightarrow>
          (case reserveInternal size_capacity poly_modulus_degree coeff_modulus_size c of
             (Some e, c') \<Rightarrow> (Some e, c')
           | (None, c') \<Rightarrow> (None, c'\<lparr>parms_id_' := parms_id\<rparr>)))"

text \<open>
  The two inline overloads of the header: \<^verbatim>\<open>reserve(context, size_capacity)\<close> takes
  the identifier from \<^verbatim>\<open>context.firstParmsID()\<close>, and \<^verbatim>\<open>reserve(size_capacity)\<close>
  passes the current degree and modulus count to \<^verbatim>\<open>reserveInternal\<close>.
\<close>

definition reserve_ctx :: "SEALContext \<Rightarrow> size_t \<Rightarrow> Ciphertext \<Rightarrow> error option \<times> Ciphertext" where
  "reserve_ctx ctx size_capacity c = reserve ctx (firstParmsID ctx) size_capacity c"

definition reserve_cap :: "size_t \<Rightarrow> Ciphertext \<Rightarrow> error option \<times> Ciphertext" where
  "reserve_cap size_capacity c =
     reserveInternal size_capacity (poly_modulus_degree_' c) (coeff_modulus_size_' c) c"

text \<open>
  Modelled from the spec: \<^verbatim>\<open>resizeInternal\<close> is declared in the header and defined in
  \<^verbatim>\<open>ciphertext.cpp\<close>. It "fails InvalidArgument if new_size < 2 or if new_size * N * K
  overflows. Reallocates via reserve if new_size exceeds current capacity. Sets
  size = new_size." A failure of the reservation leaves the object as it was.
\<close>

definition resizeInternal ::
  "size_t \<Rightarrow> size_t \<Rightarrow> size_t \<Rightarrow> Ciphertext \<Rightarrow> error option \<times> Ciphertext" where
  "resizeInternal new_size poly_modulus_degree coeff_modulus_size c =
     (if new_size < SEAL_CIPHERTEXT_SIZE_MIN then (Some InvalidArgument, c)
      else (case mul_safe poly_modulus_degree coeff_modulus_size of
              Inl e \<Rightarrow> (Some InvalidArgument, c)
            | Inr poly_uint64_count \<Rightarrow>
                (case mul_safe new_size poly_uint64_count of
                   Inl e \<Rightarrow> (Some InvalidArgument, c)
                 | Inr new_data_size \<Rightarrow>
                     (case (if arr_capacity (data_' c) < new_data_size
                            then reserveInternal new_size poly_modulus_degree coeff_modulus_size c
                            else (None, c)) of
                        (Some e, c') \<Rightarrow> (Some e, c)
                      | (None, c') \<Rightarrow>
                          (None, c'\<lparr>size_' := new_size,
                                    poly_modulus_degree_' := poly_modulus_degree,
                                    coeff_modulus_size_' := coeff_modulus_size,
                                    data_' := arr_resize (data_' c') new_data_size\<rparr>)))))"

text \<open>
  Modelled from the spec: \<^verbatim>\<open>resize(context, parms_id, size)\<close> is declared in the header
  and defined in \<^verbatim>\<open>ciphertext.cpp\<close>; the lookup and the identifier are handled as in
  \<^verbatim>\<open>reserve\<close>.
\<close>

definition resize ::
  "SEALContext \<Rightarrow> ParmsID \<Rightarrow> size_t \<Rightarrow> Ciphertext \<Rightarrow> error option \<times> Ciphertext" where
  "resize ctx parms_id new_size c =
     (case get_parms ctx parms_id of
        None \<Rightarrow> (Some InvalidArgument, c)
      | Some (poly_modulus_degree, coeff_modulus_size) \<Rightarrow>
          (case resizeInternal new_size poly_modulus_degree coeff_modulus_size c of
             (Some e, c') \<Rightarrow> (Some e, c')
           | (None, c') \<Rightarrow> (None, c'\<lparr>parms_id_' := parms_id\<rparr>)))"

text \<open>
  The two inline overloads of the header: \<^verbatim>\<open>resize(context, size)\<close> and
  \<^verbatim>\<open>resize(size)\<close>. The latter passes the current degree and modulus count, which the
  header notes "are either valid or coeff_modulus_size_ is zero (in which case no memory
  is allocated)".
\<close>

definition resize_ctx :: "SEALContext \<Rightarrow> size_t \<Rightarrow> Ciphertext \<Rightarrow> error option \<times> Ciphertext" where
  "resize_ctx ctx new_size c = resize ctx (firstParmsID ctx) new_size c"

definition resize_size :: "size_t \<Rightarrow> Ciphertext \<Rightarrow> error option \<times> Ciphertext" where
  "resize_size new_size c =
     resizeInternal new_size (poly_modulus_degree_' c) (coeff_modulus_size_' c) c"

text \<open>
  Modelled from the spec: the copy assignment \<^verbatim>\<open>operator=(const Ciphertext &)\<close> is
  declared in the header and defined in \<^verbatim>\<open>ciphertext.cpp\<close>. "Copy performs a full
  independent duplication of buffer and metadata": the object takes the value of the one
  assigned to it.
\<close>

definition copy_assign :: "Ciphertext \<Rightarrow> Ciphertext \<Rightarrow> Ciphertext" where
  "copy_assign c assign = assign"

text \<open>
  Modelled from the spec: the move constructor of \<^verbatim>\<open>HostDynamicArray\<close> is defined
  outside the header. "Move transfers buffer ownership": the array moved from is left
  without a buffer.
\<close>

definition arr_moved_from :: "HostDynamicArray \<Rightarrow> HostDynamicArray" where
  "arr_moved_from a = arr_empty"

text \<open>
  The defaulted move constructor and move assignment act member by member. The first
  component is the object that is constructed or assigned: it receives the members of
  \<open>source\<close>. The second component is \<open>source\<close> after the move: moving a scalar member
  copies it, so the identifier, the flag, \<^verbatim>\<open>size_\<close>, \<^verbatim>\<open>poly_modulus_degree_\<close>,
  \<^verbatim>\<open>coeff_modulus_size_\<close>, the scale and the correction factor keep their values,
  while \<^verbatim>\<open>data_\<close> has handed over its buffer.
\<close>

definition move_construct :: "Ciphertext \<Rightarrow> Ciphertext \<times> Ciphertext" where
  "move_construct source = (source, source\<lparr>data_' := arr_moved_from (data_' source)\<rparr>)"

subsection \<open>Layout invariant and reachable states\<close>

text \<open>
  The number of 64-bit words of one polynomial, \<open>N * K\<close>, as a natural number (without
  wrap-around).
\<close>

definition poly_words :: "Ciphertext \<Rightarrow> nat" where
  "poly_words c = unat (poly_modulus_degree_' c) * unat (coeff_modulus_size_' c)"

text \<open>
  The layout the header documents for the backing array: "if the polynomial modulus has
  degree N, and the number of primes in the coefficient modulus is K, then the ciphertext
  contains size*N*K coefficients". In addition the logical contents fit in the allocation
  and \<open>N * K\<close> fits the address-size type.
\<close>

definition valid_layout :: "Ciphertext \<Rightarrow> bool" where
  "valid_layout c \<longleftrightarrow>
     length (elems (data_' c)) = unat (size_' c) * poly_words c
     \<and> length (elems (data_' c)) \<le> unat (capacity_' (data_' c))
     \<and> poly_words c < 2 ^ 64"

text \<open>
  What holds of every state a client can produce, the source of a move included: the
  products \<open>N * K\<close> and \<open>size * N * K\<close> fit the address-size type, the logical contents fit
  in the allocation, and the buffer either holds the \<open>size * N * K\<close> coefficients or is
  empty.
\<close>

definition buffer_layout :: "Ciphertext \<Rightarrow> bool" where
  "buffer_layout c \<longleftrightarrow>
     unat (size_' c) * poly_words c < 2 ^ 64
     \<and> poly_words c < 2 ^ 64
     \<and> length (elems (data_' c)) \<le> unat (capacity_' (data_' c))
     \<and> (length (elems (data_' c)) = unat (size_' c) * poly_words c \<or> elems (data_' c) = [])"

text \<open>
  The states a client can produce: default construction followed by any sequence of
  reserve, resize, release, copy, move (both the object that receives the members and the
  object moved from), writes to coefficients (through
  \<^verbatim>\<open>operator[]\<close> or the pointers returned by \<^verbatim>\<open>data\<close>) and writes to the metadata
  exposed by reference (\<^verbatim>\<open>parmsID()\<close>, \<^verbatim>\<open>isNttForm()\<close>, \<^verbatim>\<open>scale()\<close>,
  \<^verbatim>\<open>correctionFactor()\<close>). After a call that throws, the object is in the state
  returned next to the error. The constructors taking a \<^verbatim>\<open>SEALContext\<close> are default
  construction followed by \<^verbatim>\<open>reserve\<close>.
\<close>

inductive reachable :: "Ciphertext \<Rightarrow> bool" where
  r_default: "reachable Ciphertext_default"
| r_reserve: "reachable c \<Longrightarrow> reachable (snd (reserve ctx parms_id n c))"
| r_reserve_ctx: "reachable c \<Longrightarrow> reachable (snd (reserve_ctx ctx n c))"
| r_reserve_cap: "reachable c \<Longrightarrow> reachable (snd (reserve_cap n c))"
| r_resize: "reachable c \<Longrightarrow> reachable (snd (resize ctx parms_id n c))"
| r_resize_ctx: "reachable c \<Longrightarrow> reachable (snd (resize_ctx ctx n c))"
| r_resize_size: "reachable c \<Longrightarrow> reachable (snd (resize_size n c))"
| r_release: "reachable c \<Longrightarrow> reachable (release c)"
| r_copy: "reachable c \<Longrightarrow> reachable a \<Longrightarrow> reachable (copy_assign c a)"
| r_move_target: "reachable a \<Longrightarrow> reachable (fst (move_construct a))"
| r_move_source: "reachable a \<Longrightarrow> reachable (snd (move_construct a))"
| r_write: "reachable c \<Longrightarrow> length es = length (elems (data_' c))
            \<Longrightarrow> reachable (c\<lparr>data_' := (data_' c)\<lparr>elems := es\<rparr>\<rparr>)"
| r_meta: "reachable c
            \<Longrightarrow> reachable (c\<lparr>parms_id_' := p, is_ntt_form_' := b, scale_' := s,
                              correction_factor_' := f\<rparr>)"

subsection \<open>Example states\<close>

text \<open>
  The scenario with degree 8 and modulus count 2 at size 2 (32 words, all zero), the same
  state with the seed marker in the first word of the second polynomial, a registry that
  knows identifier 1 with these parameters.
\<close>

definition example_ct :: Ciphertext where
  "example_ct =
     \<lparr>parms_id_' = 1, is_ntt_form_' = False, size_' = 2,
      poly_modulus_degree_' = 8, coeff_modulus_size_' = 2, scale_' = 1,
      correction_factor_' = 1, data_' = \<lparr>capacity_' = 32, elems = replicate 32 0\<rparr>\<rparr>"

definition example_seeded :: Ciphertext where
  "example_seeded =
     example_ct\<lparr>data_' := \<lparr>capacity_' = 32, elems = (replicate 32 0)[16 := 0xFFFFFFFFFFFFFFFF]\<rparr>\<rparr>"

definition example_context :: SEALContext where
  "example_context = \<lparr>get_parms = [1 \<mapsto> (8, 2)], firstParmsID = 1\<rparr>"

section \<open>Auxiliary facts\<close>

subsection \<open>Checked multiplication and lists\<close>

lemma mul_safe_fits:
  assumes "unat a * unat b < 2 ^ 64"
  shows "mul_safe a b = Inr (a * b)" and "unat (a * b) = unat a * unat b"
proof -
  show "mul_safe a b = Inr (a * b)" using assms by (simp add: mul_safe_def)
  have "unat a * unat b < 2 ^ LENGTH(64)" using assms by simp
  then show "unat (a * b) = unat a * unat b" by (simp only: unat_mult_lem)
qed

lemma mul_safe_overflow:
  "\<not> unat a * unat b < 2 ^ 64 \<Longrightarrow> mul_safe a b = Inl Overflow"
  by (simp add: mul_safe_def)

lemma mul_safe_Inr:
  assumes "mul_safe a b = Inr p"
  shows "unat a * unat b < 2 ^ 64" and "unat p = unat a * unat b"
proof -
  from assms show f: "unat a * unat b < 2 ^ 64"
    by (simp add: mul_safe_def split: if_splits)
  from assms mul_safe_fits [OF f] show "unat p = unat a * unat b" by simp
qed

lemma mul_safe3_overflow:
  assumes "\<not> unat n * (unat N * unat K) < 2 ^ 64" and "\<not> n < 2"
  shows "mul_safe N K = Inl Overflow
         \<or> (mul_safe N K = Inr (N * K) \<and> mul_safe n (N * K) = Inl Overflow)"
proof (cases "unat N * unat K < 2 ^ 64")
  case False
  then show ?thesis by (simp add: mul_safe_overflow)
next
  case True
  from mul_safe_fits [OF True] assms(1)
  have "mul_safe N K = Inr (N * K)" and "\<not> unat n * unat (N * K) < 2 ^ 64" by simp_all
  then show ?thesis by (simp add: mul_safe_overflow)
qed

lemma list_all_drop_nth:
  "list_all P (drop n xs) \<longleftrightarrow> (\<forall>j. n \<le> j \<and> j < length xs \<longrightarrow> P (xs ! j))"
proof
  assume h: "list_all P (drop n xs)"
  show "\<forall>j. n \<le> j \<and> j < length xs \<longrightarrow> P (xs ! j)"
  proof (intro allI impI)
    fix j assume j: "n \<le> j \<and> j < length xs"
    then have "j - n < length (drop n xs)" by auto
    with h have "P (drop n xs ! (j - n))" by (simp add: list_all_length)
    with j show "P (xs ! j)" by auto
  qed
next
  assume h: "\<forall>j. n \<le> j \<and> j < length xs \<longrightarrow> P (xs ! j)"
  show "list_all P (drop n xs)"
    unfolding list_all_length
  proof (intro allI impI)
    fix i assume "i < length (drop n xs)"
    then have "n \<le> n + i \<and> n + i < length xs" by simp
    with h have "P (xs ! (n + i))" by blast
    then show "P (drop n xs ! i)" using \<open>i < length (drop n xs)\<close> by simp
  qed
qed

lemma size_ge_2_nat: "\<not> (s :: size_t) < 2 \<longleftrightarrow> 2 \<le> unat s"
  by (simp add: word_less_nat_alt not_less)

subsection \<open>The layout invariant\<close>

lemma valid_layout_count:
  assumes "valid_layout c"
  shows "mul_safe (poly_modulus_degree_' c) (coeff_modulus_size_' c)
           = Inr (poly_modulus_degree_' c * coeff_modulus_size_' c)"
    and "unat (poly_modulus_degree_' c * coeff_modulus_size_' c) = poly_words c"
proof -
  from assms have "unat (poly_modulus_degree_' c) * unat (coeff_modulus_size_' c) < 2 ^ 64"
    by (simp add: valid_layout_def poly_words_def)
  from mul_safe_fits [OF this]
  show "mul_safe (poly_modulus_degree_' c) (coeff_modulus_size_' c)
           = Inr (poly_modulus_degree_' c * coeff_modulus_size_' c)"
    and "unat (poly_modulus_degree_' c * coeff_modulus_size_' c) = poly_words c"
    by (simp_all add: poly_words_def)
qed

lemma data_in_range:
  assumes v: "valid_layout c"
    and nz: "poly_words c \<noteq> 0"
    and i: "i < size_' c"
  shows "data c i = Inr (Elem (unat i * poly_words c))"
    and "unat i * poly_words c + poly_words c \<le> length (elems (data_' c))"
proof -
  let ?N = "poly_modulus_degree_' c" and ?K = "coeff_modulus_size_' c"
  let ?p = "poly_words c"
  from v have len: "length (elems (data_' c)) = unat (size_' c) * ?p"
    and cap: "length (elems (data_' c)) \<le> unat (capacity_' (data_' c))"
    by (simp_all add: valid_layout_def)
  note p1 = valid_layout_count(1) [OF v] and p2 = valid_layout_count(2) [OF v]
  from nz p2 have pnz: "?N * ?K \<noteq> 0" by (metis unat_0)
  from i have i': "unat i < unat (size_' c)" by (simp add: word_less_nat_alt)
  then have "Suc (unat i) \<le> unat (size_' c)" by simp
  then have le: "Suc (unat i) * ?p \<le> unat (size_' c) * ?p" by (rule mult_le_mono1)
  then show bound: "unat i * ?p + ?p \<le> length (elems (data_' c))"
    using len by (simp add: add.commute)
  have "unat (capacity_' (data_' c)) < 2 ^ 64" using unsigned_less [of "capacity_' (data_' c)"] by simp
  with bound cap have "unat i * ?p < 2 ^ 64" by linarith
  then have "unat i * unat (?N * ?K) < 2 ^ 64" by (simp only: p2)
  from mul_safe_fits [OF this]
  have q1: "mul_safe i (?N * ?K) = Inr (i * (?N * ?K))" and q2: "unat (i * (?N * ?K)) = unat i * ?p"
    by (simp_all add: p2)
  from i have "\<not> size_' c \<le> i" by simp
  then show "data c i = Inr (Elem (unat i * ?p))"
    by (simp add: data_def p1 pnz q1 q2)
qed

lemma valid_layout_elems_update:
  "valid_layout c \<Longrightarrow> length es' = length (elems (data_' c))
     \<Longrightarrow> valid_layout (c\<lparr>data_' := (data_' c)\<lparr>elems := es'\<rparr>\<rparr>)"
  by (simp add: valid_layout_def poly_words_def)

lemma valid_layout_parms_id [simp]:
  "valid_layout (c\<lparr>parms_id_' := p\<rparr>) = valid_layout c"
  by (simp add: valid_layout_def poly_words_def)

lemma valid_default: "valid_layout Ciphertext_default"
  by (simp add: valid_layout_def poly_words_def Ciphertext_default_def arr_empty_def)

lemma valid_example_ct: "valid_layout example_ct"
  by (simp add: valid_layout_def poly_words_def example_ct_def)

lemma valid_example_seeded: "valid_layout example_seeded"
  by (simp add: valid_layout_def poly_words_def example_seeded_def example_ct_def)

lemma isTransparent_valid:
  assumes v: "valid_layout c"
  shows "isTransparent c =
           Inr (elems (data_' c) = [] \<or> size_' c < 2
                \<or> list_all isZero (drop (poly_words c) (elems (data_' c))))"
proof (cases "elems (data_' c) = [] \<or> size_' c < 2")
  case True
  then show ?thesis
    by (auto simp: isTransparent_def arr_size_def SEAL_CIPHERTEXT_SIZE_MIN_def)
next
  case False
  then have ne: "elems (data_' c) \<noteq> []" and s2: "\<not> size_' c < 2" by simp_all
  from v have len: "length (elems (data_' c)) = unat (size_' c) * poly_words c"
    by (simp add: valid_layout_def)
  have nz: "poly_words c \<noteq> 0"
  proof
    assume "poly_words c = 0"
    with len have "length (elems (data_' c)) = 0" by simp
    with ne show False by simp
  qed
  from s2 have "2 \<le> unat (size_' c)" by (simp only: size_ge_2_nat)
  then have one: "(1 :: size_t) < size_' c" by (simp add: word_less_nat_alt)
  from data_in_range [OF v nz one]
  have d: "data c 1 = Inr (Elem (poly_words c))"
    and b: "poly_words c \<le> length (elems (data_' c))" by simp_all
  from ne s2 d b show ?thesis
    by (simp add: isTransparent_def arr_size_def arr_cend_def SEAL_CIPHERTEXT_SIZE_MIN_def)
qed


lemma unat_sizeCapacity:
  "unat (sizeCapacity c) =
     (if poly_words c mod 2 ^ 64 = 0 then 0
      else unat (capacity_' (data_' c)) div (poly_words c mod 2 ^ 64))"
proof -
  have p: "unat (poly_modulus_degree_' c * coeff_modulus_size_' c) = poly_words c mod 2 ^ 64"
    by (simp add: unat_word_ariths poly_words_def)
  show ?thesis
  proof (cases "poly_modulus_degree_' c * coeff_modulus_size_' c = 0")
    case True
    with p show ?thesis by (simp add: sizeCapacity_def)
  next
    case False
    with p have "poly_words c mod 2 ^ 64 \<noteq> 0" by (metis unat_0_iff)
    with False p show ?thesis
      by (simp add: sizeCapacity_def arr_capacity_def unat_div)
  qed
qed

lemma valid_layout_capacity:
  assumes v: "valid_layout c" and nz: "poly_words c \<noteq> 0"
  shows "size_' c \<le> sizeCapacity c"
proof -
  from v have len: "length (elems (data_' c)) = unat (size_' c) * poly_words c"
    and cap: "length (elems (data_' c)) \<le> unat (capacity_' (data_' c))"
    and fit: "poly_words c < 2 ^ 64"
    by (simp_all add: valid_layout_def)
  from fit nz have "unat (sizeCapacity c) = unat (capacity_' (data_' c)) div poly_words c"
    by (simp add: unat_sizeCapacity)
  moreover from len cap have "unat (size_' c) * poly_words c div poly_words c
                                \<le> unat (capacity_' (data_' c)) div poly_words c"
    by (intro div_le_mono) simp
  moreover from nz have "unat (size_' c) * poly_words c div poly_words c = unat (size_' c)"
    by simp
  ultimately show ?thesis by (simp add: word_le_nat_alt)
qed

subsection \<open>Reserve and resize\<close>

lemma arr_reserve_simps:
  "elems (arr_reserve a n) = elems a"
  "unat (capacity_' a) \<le> unat (capacity_' (arr_reserve a n))"
  "unat n \<le> unat (capacity_' (arr_reserve a n))"
  by (simp_all add: arr_reserve_def arr_capacity_def word_less_nat_alt)

lemma arr_resize_simps:
  "length (elems (arr_resize a n)) = unat n"
  "unat n \<le> unat (capacity_' (arr_resize a n))"
  by (simp_all add: arr_resize_def arr_reserve_def arr_capacity_def word_less_nat_alt)

lemma reserveInternal_failure:
  "fst (reserveInternal n N K c) \<noteq> None \<Longrightarrow> snd (reserveInternal n N K c) = c"
  by (auto simp: reserveInternal_def split: if_splits sum.splits)

lemma resizeInternal_failure:
  "fst (resizeInternal n N K c) \<noteq> None \<Longrightarrow> snd (resizeInternal n N K c) = c"
  by (auto simp: resizeInternal_def split: if_splits sum.splits prod.splits option.splits)

lemma reserve_failure:
  "fst (reserve ctx pid n c) \<noteq> None \<Longrightarrow> snd (reserve ctx pid n c) = c"
proof (cases "get_parms ctx pid")
  case None
  then show ?thesis by (simp add: reserve_def)
next
  case (Some nk)
  obtain N K where nk: "nk = (N, K)" by (cases nk)
  obtain r c' where ri: "reserveInternal n N K c = (r, c')" by (cases "reserveInternal n N K c")
  assume f: "fst (reserve ctx pid n c) \<noteq> None"
  with Some nk ri have "r \<noteq> None" by (cases r) (simp_all add: reserve_def)
  with ri reserveInternal_failure [of n N K c] have "c' = c" by simp
  with Some nk ri \<open>r \<noteq> None\<close> show ?thesis by (cases r) (simp_all add: reserve_def)
qed

lemma resize_failure:
  "fst (resize ctx pid n c) \<noteq> None \<Longrightarrow> snd (resize ctx pid n c) = c"
proof (cases "get_parms ctx pid")
  case None
  then show ?thesis by (simp add: resize_def)
next
  case (Some nk)
  obtain N K where nk: "nk = (N, K)" by (cases nk)
  obtain r c' where ri: "resizeInternal n N K c = (r, c')" by (cases "resizeInternal n N K c")
  assume f: "fst (resize ctx pid n c) \<noteq> None"
  with Some nk ri have "r \<noteq> None" by (cases r) (simp_all add: resize_def)
  with ri resizeInternal_failure [of n N K c] have "c' = c" by simp
  with Some nk ri \<open>r \<noteq> None\<close> show ?thesis by (cases r) (simp_all add: resize_def)
qed

lemma reserveInternal_rejects:
  "n < 2 \<Longrightarrow> reserveInternal n N K c = (Some InvalidArgument, c)"
  "\<not> n < 2 \<Longrightarrow> \<not> unat n * (unat N * unat K) < 2 ^ 64
     \<Longrightarrow> reserveInternal n N K c = (Some Overflow, c)"
proof -
  show "n < 2 \<Longrightarrow> reserveInternal n N K c = (Some InvalidArgument, c)"
    by (simp add: reserveInternal_def SEAL_CIPHERTEXT_SIZE_MIN_def)
  assume a: "\<not> n < 2" and b: "\<not> unat n * (unat N * unat K) < 2 ^ 64"
  from mul_safe3_overflow [OF b a] a
  show "reserveInternal n N K c = (Some Overflow, c)"
    by (auto simp: reserveInternal_def SEAL_CIPHERTEXT_SIZE_MIN_def)
qed

lemma resizeInternal_rejects:
  "n < 2 \<Longrightarrow> resizeInternal n N K c = (Some InvalidArgument, c)"
  "\<not> n < 2 \<Longrightarrow> \<not> unat n * (unat N * unat K) < 2 ^ 64
     \<Longrightarrow> resizeInternal n N K c = (Some InvalidArgument, c)"
proof -
  show "n < 2 \<Longrightarrow> resizeInternal n N K c = (Some InvalidArgument, c)"
    by (simp add: resizeInternal_def SEAL_CIPHERTEXT_SIZE_MIN_def)
  assume a: "\<not> n < 2" and b: "\<not> unat n * (unat N * unat K) < 2 ^ 64"
  from mul_safe3_overflow [OF b a] a
  show "resizeInternal n N K c = (Some InvalidArgument, c)"
    by (auto simp: resizeInternal_def SEAL_CIPHERTEXT_SIZE_MIN_def)
qed

lemma reserveInternal_success:
  assumes "fst (reserveInternal n N K c) = None"
  obtains q where "unat N * unat K < 2 ^ 64" and "unat q = unat n * (unat N * unat K)"
    and "unat n * (unat N * unat K) < 2 ^ 64"
    and "size_' c = 0 \<or> (N = poly_modulus_degree_' c \<and> K = coeff_modulus_size_' c)"
    and "snd (reserveInternal n N K c) =
           c\<lparr>poly_modulus_degree_' := N, coeff_modulus_size_' := K,
             data_' := arr_reserve (data_' c) q\<rparr>"
proof -
  from assms obtain p q where p: "mul_safe N K = Inr p" and q: "mul_safe n p = Inr q"
    and same: "size_' c = 0 \<or> (N = poly_modulus_degree_' c \<and> K = coeff_modulus_size_' c)"
    and r: "snd (reserveInternal n N K c) =
              c\<lparr>poly_modulus_degree_' := N, coeff_modulus_size_' := K,
                data_' := arr_reserve (data_' c) q\<rparr>"
    by (auto simp: reserveInternal_def split: if_splits sum.splits)
  from mul_safe_Inr [OF p] mul_safe_Inr [OF q]
  have "unat N * unat K < 2 ^ 64" and "unat q = unat n * (unat N * unat K)"
    and "unat n * (unat N * unat K) < 2 ^ 64" by simp_all
  with same r that show thesis by blast
qed

lemma resizeInternal_success:
  assumes "fst (resizeInternal n N K c) = None"
  shows "valid_layout (snd (resizeInternal n N K c))"
    and "length (elems (data_' (snd (resizeInternal n N K c)))) = unat n * (unat N * unat K)"
    and "size_' (snd (resizeInternal n N K c)) = n"
proof -
  from assms obtain p q c' where p: "mul_safe N K = Inr p" and q: "mul_safe n p = Inr q"
    and r: "snd (resizeInternal n N K c) =
              c'\<lparr>size_' := n, poly_modulus_degree_' := N, coeff_modulus_size_' := K,
                 data_' := arr_resize (data_' c') q\<rparr>"
    by (auto simp: resizeInternal_def split: if_splits sum.splits prod.splits option.splits)
  from mul_safe_Inr [OF p] mul_safe_Inr [OF q]
  have f: "unat N * unat K < 2 ^ 64" and u: "unat q = unat n * (unat N * unat K)" by simp_all
  then show "valid_layout (snd (resizeInternal n N K c))"
    using arr_resize_simps(2) [of q "data_' c'"]
    by (simp add: r valid_layout_def poly_words_def arr_resize_simps(1))
  from u show "length (elems (data_' (snd (resizeInternal n N K c)))) = unat n * (unat N * unat K)"
    by (simp add: r arr_resize_simps(1))
  show "size_' (snd (resizeInternal n N K c)) = n" by (simp add: r)
qed

lemma valid_layout_buffer_layout:
  assumes "valid_layout c"
  shows "buffer_layout c"
proof -
  from assms have len: "length (elems (data_' c)) = unat (size_' c) * poly_words c"
    and cap: "length (elems (data_' c)) \<le> unat (capacity_' (data_' c))"
    and fit: "poly_words c < 2 ^ 64"
    by (simp_all add: valid_layout_def)
  have "unat (capacity_' (data_' c)) < 2 ^ 64"
    using unsigned_less [of "capacity_' (data_' c)"] by simp
  with len cap have "unat (size_' c) * poly_words c < 2 ^ 64" by linarith
  with len cap fit show ?thesis by (simp add: buffer_layout_def)
qed

lemma buffer_layout_parms_id [simp]:
  "buffer_layout (c\<lparr>parms_id_' := p\<rparr>) = buffer_layout c"
  by (simp add: buffer_layout_def poly_words_def)

lemma reserveInternal_buffer_layout:
  assumes b: "buffer_layout c"
  shows "buffer_layout (snd (reserveInternal n N K c))"
proof (cases "fst (reserveInternal n N K c)")
  case (Some e)
  then have "snd (reserveInternal n N K c) = c" by (simp add: reserveInternal_failure)
  with b show ?thesis by simp
next
  case None
  from reserveInternal_success [OF None] obtain q
    where fit: "unat N * unat K < 2 ^ 64"
      and same: "size_' c = 0 \<or> (N = poly_modulus_degree_' c \<and> K = coeff_modulus_size_' c)"
      and r: "snd (reserveInternal n N K c) =
                c\<lparr>poly_modulus_degree_' := N, coeff_modulus_size_' := K,
                  data_' := arr_reserve (data_' c) q\<rparr>"
    by blast
  let ?es = "elems (data_' c)"
  from b have sp: "unat (size_' c) * poly_words c < 2 ^ 64"
    and cap: "length ?es \<le> unat (capacity_' (data_' c))"
    and lay: "length ?es = unat (size_' c) * poly_words c \<or> ?es = []"
    by (simp_all add: buffer_layout_def)
  from same sp have sp': "unat (size_' c) * (unat N * unat K) < 2 ^ 64"
    by (auto simp: poly_words_def)
  from same lay have lay': "length ?es = unat (size_' c) * (unat N * unat K) \<or> ?es = []"
    by (auto simp: poly_words_def)
  from cap arr_reserve_simps(2) [of "data_' c" q]
  have cap': "length ?es \<le> unat (capacity_' (arr_reserve (data_' c) q))"
    by (rule order_trans)
  from sp' fit lay' cap' show ?thesis
    by (simp add: r buffer_layout_def poly_words_def arr_reserve_simps(1))
qed

lemma resizeInternal_buffer_layout:
  assumes b: "buffer_layout c"
  shows "buffer_layout (snd (resizeInternal n N K c))"
proof (cases "fst (resizeInternal n N K c)")
  case (Some e)
  then have "snd (resizeInternal n N K c) = c" by (simp add: resizeInternal_failure)
  with b show ?thesis by simp
next
  case None
  then show ?thesis by (intro valid_layout_buffer_layout resizeInternal_success(1))
qed

lemma reserve_buffer_layout:
  assumes b: "buffer_layout c"
  shows "buffer_layout (snd (reserve ctx pid n c))"
proof (cases "get_parms ctx pid")
  case None
  with b show ?thesis by (simp add: reserve_def)
next
  case (Some nk)
  obtain N K where nk: "nk = (N, K)" by (cases nk)
  obtain r c' where ri: "reserveInternal n N K c = (r, c')"
    by (cases "reserveInternal n N K c")
  with reserveInternal_buffer_layout [OF b, of n N K] have "buffer_layout c'" by simp
  with Some nk ri show ?thesis by (cases r) (simp_all add: reserve_def)
qed

lemma resize_buffer_layout:
  assumes b: "buffer_layout c"
  shows "buffer_layout (snd (resize ctx pid n c))"
proof (cases "get_parms ctx pid")
  case None
  with b show ?thesis by (simp add: resize_def)
next
  case (Some nk)
  obtain N K where nk: "nk = (N, K)" by (cases nk)
  obtain r c' where ri: "resizeInternal n N K c = (r, c')"
    by (cases "resizeInternal n N K c")
  with resizeInternal_buffer_layout [OF b, of n N K] have "buffer_layout c'" by simp
  with Some nk ri show ?thesis by (cases r) (simp_all add: resize_def)
qed

lemma reachable_buffer_layout: "reachable c \<Longrightarrow> buffer_layout c"
proof (induction rule: reachable.induct)
  case r_default
  show ?case by (rule valid_layout_buffer_layout [OF valid_default])
next
  case (r_reserve c ctx parms_id n)
  then show ?case by (simp add: reserve_buffer_layout)
next
  case (r_reserve_ctx c ctx n)
  then show ?case by (simp add: reserve_ctx_def reserve_buffer_layout)
next
  case (r_reserve_cap c n)
  then show ?case by (simp add: reserve_cap_def reserveInternal_buffer_layout)
next
  case (r_resize c ctx parms_id n)
  then show ?case by (simp add: resize_buffer_layout)
next
  case (r_resize_ctx c ctx n)
  then show ?case by (simp add: resize_ctx_def resize_buffer_layout)
next
  case (r_resize_size c n)
  then show ?case by (simp add: resize_size_def resizeInternal_buffer_layout)
next
  case (r_release c)
  show ?case
    by (simp add: release_def buffer_layout_def poly_words_def arr_release_def arr_empty_def)
next
  case (r_copy c a)
  then show ?case by (simp add: copy_assign_def)
next
  case (r_move_target a)
  then show ?case by (simp add: move_construct_def)
next
  case (r_move_source a)
  then show ?case
    by (simp add: move_construct_def buffer_layout_def poly_words_def arr_moved_from_def
        arr_empty_def)
next
  case (r_write c es)
  then show ?case by (auto simp: buffer_layout_def poly_words_def)
next
  case (r_meta c p b s f)
  then show ?case by (simp add: buffer_layout_def poly_words_def)
qed

text \<open>How the capacity reported by \<^verbatim>\<open>sizeCapacity()\<close> moves with the operations.\<close>

lemma sizeCapacity_mono:
  assumes "poly_modulus_degree_' c' = poly_modulus_degree_' c"
    and "coeff_modulus_size_' c' = coeff_modulus_size_' c"
    and "unat (capacity_' (data_' c)) \<le> unat (capacity_' (data_' c'))"
  shows "sizeCapacity c \<le> sizeCapacity c'"
proof -
  from assms(1,2) have pw: "poly_words c' = poly_words c" by (simp add: poly_words_def)
  from assms(3) have "unat (capacity_' (data_' c)) div (poly_words c mod 2 ^ 64)
                        \<le> unat (capacity_' (data_' c')) div (poly_words c mod 2 ^ 64)"
    by (rule div_le_mono)
  then have "unat (sizeCapacity c) \<le> unat (sizeCapacity c')"
    by (simp add: unat_sizeCapacity pw)
  then show ?thesis by (simp add: word_le_nat_alt)
qed

lemma sizeCapacity_parms_id [simp]:
  "sizeCapacity (c\<lparr>parms_id_' := p\<rparr>) = sizeCapacity c"
  by (simp add: sizeCapacity_def arr_capacity_def Let_def)

lemma reserveInternal_capacity_invariant:
  assumes inv: "size_' c \<le> sizeCapacity c"
  shows "size_' (snd (reserveInternal n N K c)) \<le> sizeCapacity (snd (reserveInternal n N K c))"
proof (cases "fst (reserveInternal n N K c)")
  case (Some e)
  then have "snd (reserveInternal n N K c) = c" by (simp add: reserveInternal_failure)
  with inv show ?thesis by simp
next
  case None
  from reserveInternal_success [OF None] obtain q
    where same: "size_' c = 0 \<or> (N = poly_modulus_degree_' c \<and> K = coeff_modulus_size_' c)"
      and r: "snd (reserveInternal n N K c) =
                c\<lparr>poly_modulus_degree_' := N, coeff_modulus_size_' := K,
                  data_' := arr_reserve (data_' c) q\<rparr>"
    by blast
  let ?c' = "snd (reserveInternal n N K c)"
  from r have s: "size_' ?c' = size_' c" by simp
  show ?thesis
  proof (cases "size_' c = 0")
    case True
    with s show ?thesis by simp
  next
    case False
    with same have nk: "N = poly_modulus_degree_' c" "K = coeff_modulus_size_' c" by simp_all
    have f: "poly_modulus_degree_' ?c' = N" "coeff_modulus_size_' ?c' = K"
      "data_' ?c' = arr_reserve (data_' c) q"
      by (simp_all add: r)
    have "sizeCapacity c \<le> sizeCapacity ?c'"
    proof (rule sizeCapacity_mono)
      from f(1) nk(1) show "poly_modulus_degree_' ?c' = poly_modulus_degree_' c" by simp
      from f(2) nk(2) show "coeff_modulus_size_' ?c' = coeff_modulus_size_' c" by simp
      from f(3) show "unat (capacity_' (data_' c)) \<le> unat (capacity_' (data_' ?c'))"
        by (simp add: arr_reserve_simps(2))
    qed
    with inv s show ?thesis by simp
  qed
qed

lemma reserve_capacity_invariant:
  assumes inv: "size_' c \<le> sizeCapacity c"
  shows "size_' (snd (reserve ctx pid n c)) \<le> sizeCapacity (snd (reserve ctx pid n c))"
proof (cases "get_parms ctx pid")
  case None
  with inv show ?thesis by (simp add: reserve_def)
next
  case (Some nk)
  obtain N K where nk: "nk = (N, K)" by (cases nk)
  obtain r c' where ri: "reserveInternal n N K c = (r, c')"
    by (cases "reserveInternal n N K c")
  with reserveInternal_capacity_invariant [OF inv, of n N K]
  have "size_' c' \<le> sizeCapacity c'" by simp
  then have "size_' (c'\<lparr>parms_id_' := pid\<rparr>) \<le> sizeCapacity (c'\<lparr>parms_id_' := pid\<rparr>)"
    by simp
  with Some nk ri \<open>size_' c' \<le> sizeCapacity c'\<close> show ?thesis
    by (cases r) (simp_all add: reserve_def)
qed

lemma resizeInternal_capacity_invariant:
  assumes inv: "size_' c \<le> sizeCapacity c"
    and nz: "poly_words (snd (resizeInternal n N K c)) \<noteq> 0"
  shows "size_' (snd (resizeInternal n N K c)) \<le> sizeCapacity (snd (resizeInternal n N K c))"
proof (cases "fst (resizeInternal n N K c)")
  case (Some e)
  then have "snd (resizeInternal n N K c) = c" by (simp add: resizeInternal_failure)
  with inv show ?thesis by simp
next
  case None
  from resizeInternal_success(1) [OF None] nz show ?thesis by (rule valid_layout_capacity)
qed

lemma resize_capacity_invariant:
  assumes inv: "size_' c \<le> sizeCapacity c"
    and nz: "poly_words (snd (resize ctx pid n c)) \<noteq> 0"
  shows "size_' (snd (resize ctx pid n c)) \<le> sizeCapacity (snd (resize ctx pid n c))"
proof (cases "get_parms ctx pid")
  case None
  with inv show ?thesis by (simp add: resize_def)
next
  case (Some nk)
  obtain N K where nk: "nk = (N, K)" by (cases nk)
  obtain r c' where ri: "resizeInternal n N K c = (r, c')"
    by (cases "resizeInternal n N K c")
  from Some nk ri have sn: "snd (resize ctx pid n c) = c' \<or> snd (resize ctx pid n c) = c'\<lparr>parms_id_' := pid\<rparr>"
    by (cases r) (simp_all add: resize_def)
  then have "poly_words (snd (resize ctx pid n c)) = poly_words c'"
    by (auto simp: poly_words_def)
  with nz ri have "poly_words (snd (resizeInternal n N K c)) \<noteq> 0" by simp
  from resizeInternal_capacity_invariant [OF inv this] ri
  have i: "size_' c' \<le> sizeCapacity c'" by simp
  then have "size_' (c'\<lparr>parms_id_' := pid\<rparr>) \<le> sizeCapacity (c'\<lparr>parms_id_' := pid\<rparr>)"
    by simp
  with sn i show ?thesis by auto
qed




lemma resize_default_example:
  "resize example_context 1 2 Ciphertext_default = (None, example_ct)"
  by (simp add: resize_def resizeInternal_def reserveInternal_def mul_safe_def
      arr_resize_def arr_reserve_def arr_capacity_def SEAL_CIPHERTEXT_SIZE_MIN_def
      example_context_def Ciphertext_default_def example_ct_def arr_empty_def parmsIDZero_def
      word_less_nat_alt)

lemma reachable_example_ct: "reachable example_ct"
proof -
  have "reachable (snd (resize example_context 1 2 Ciphertext_default))"
    by (rule r_resize [OF r_default])
  then show ?thesis by (simp add: resize_default_example)
qed

lemma resize_size_default:
  "resize_size 2 Ciphertext_default = (None, Ciphertext_default\<lparr>size_' := 2\<rparr>)"
  by (simp add: resize_size_def resizeInternal_def mul_safe_def arr_resize_def arr_reserve_def
      arr_capacity_def SEAL_CIPHERTEXT_SIZE_MIN_def Ciphertext_default_def arr_empty_def)

section \<open>The claims\<close>

text \<open>
  C1. In every state with the documented layout, \<^verbatim>\<open>isTransparent()\<close> returns true if
  and only if the backing buffer is empty, or the size is below 2, or every coefficient
  from flat offset \<open>N * K\<close> (the start of the second polynomial) to the end of the logical
  buffer is zero. Consequently, a successful write of a nonzero coefficient at a flat index
  at or past \<open>N * K\<close> makes the result false, and replacing the contents by any contents of
  the same length that agree from offset \<open>N * K\<close> on (changes confined to polynomial 0)
  leaves the result as it was.
\<close>

theorem isTransparent_iff:
  assumes v: "valid_layout c"
  shows "isTransparent c =
           Inr (elems (data_' c) = [] \<or> size_' c < 2
                \<or> (\<forall>j. poly_words c \<le> j \<and> j < length (elems (data_' c))
                         \<longrightarrow> elems (data_' c) ! j = 0))
         \<and> (\<forall>j v c'. poly_words c \<le> unat j \<and> v \<noteq> 0 \<and> coeff_assign c j v = Inr c'
                \<longrightarrow> isTransparent c' = Inr False)
         \<and> (\<forall>es'. length es' = length (elems (data_' c))
                  \<and> (\<forall>j. poly_words c \<le> j \<and> j < length es' \<longrightarrow> es' ! j = elems (data_' c) ! j)
                \<longrightarrow> isTransparent (c\<lparr>data_' := (data_' c)\<lparr>elems := es'\<rparr>\<rparr>) = isTransparent c)"
proof (intro conjI allI impI)
  show "isTransparent c =
           Inr (elems (data_' c) = [] \<or> size_' c < 2
                \<or> (\<forall>j. poly_words c \<le> j \<and> j < length (elems (data_' c))
                         \<longrightarrow> elems (data_' c) ! j = 0))"
    by (simp add: isTransparent_valid [OF v] list_all_drop_nth isZero_def)
next
  fix j w c'
  assume h: "poly_words c \<le> unat j \<and> w \<noteq> 0 \<and> coeff_assign c j w = Inr c'"
  let ?es = "elems (data_' c)"
  from h have jlt: "unat j < length ?es"
    and c': "c' = c\<lparr>data_' := (data_' c)\<lparr>elems := ?es[unat j := w]\<rparr>\<rparr>"
    by (auto simp: coeff_assign_def arr_size_def split: if_splits)
  from v have len: "length ?es = unat (size_' c) * poly_words c"
    by (simp add: valid_layout_def)
  have v': "valid_layout c'" unfolding c' by (rule valid_layout_elems_update [OF v]) simp
  from h jlt len have "poly_words c < unat (size_' c) * poly_words c" by linarith
  then have "1 * poly_words c < unat (size_' c) * poly_words c" by simp
  then have "1 < unat (size_' c)" by (simp only: mult_less_cancel2)
  then have s2: "\<not> size_' c < 2" by (simp add: size_ge_2_nat)
  have "\<not> list_all isZero (drop (poly_words c) (?es[unat j := w]))"
  proof
    assume "list_all isZero (drop (poly_words c) (?es[unat j := w]))"
    then have "\<forall>i. poly_words c \<le> i \<and> i < length ?es \<longrightarrow> isZero (?es[unat j := w] ! i)"
      by (simp add: list_all_drop_nth)
    with h jlt have "isZero (?es[unat j := w] ! unat j)" by blast
    with jlt h show False by (simp add: isZero_def)
  qed
  moreover have "elems (data_' c') = ?es[unat j := w]" and "size_' c' = size_' c"
    and "poly_words c' = poly_words c"
    by (simp_all add: c' poly_words_def)
  moreover from jlt have "?es[unat j := w] \<noteq> []" by auto
  ultimately show "isTransparent c' = Inr False"
    using s2 by (simp add: isTransparent_valid [OF v'])
next
  fix es'
  assume h: "length es' = length (elems (data_' c))
                  \<and> (\<forall>j. poly_words c \<le> j \<and> j < length es' \<longrightarrow> es' ! j = elems (data_' c) ! j)"
  let ?c' = "c\<lparr>data_' := (data_' c)\<lparr>elems := es'\<rparr>\<rparr>"
  from h have v': "valid_layout ?c'" by (intro valid_layout_elems_update [OF v]) simp
  from h have e: "es' = [] \<longleftrightarrow> elems (data_' c) = []" by (metis length_0_conv)
  from h have "list_all isZero (drop (poly_words c) es')
                 \<longleftrightarrow> list_all isZero (drop (poly_words c) (elems (data_' c)))"
    by (simp add: list_all_drop_nth)
  moreover have "elems (data_' ?c') = es'" and "size_' ?c' = size_' c"
    and "poly_words ?c' = poly_words c"
    by (simp_all add: poly_words_def)
  ultimately show "isTransparent ?c' = isTransparent c"
    using e by (simp only: isTransparent_valid [OF v'] isTransparent_valid [OF v])
qed

theorem isTransparent_iff_witness:
  "valid_layout example_ct
   \<and> isTransparent example_ct = Inr True
   \<and> isTransparent (example_ct\<lparr>data_' := (data_' example_ct)\<lparr>elems := (replicate 32 0)[16 := 1]\<rparr>\<rparr>)
       = Inr False
   \<and> isTransparent (example_ct\<lparr>data_' := (data_' example_ct)\<lparr>elems := (replicate 32 0)[0 := 5]\<rparr>\<rparr>)
       = Inr True"
proof -
  let ?c1 = "example_ct\<lparr>data_' := (data_' example_ct)\<lparr>elems := (replicate 32 0)[16 := 1]\<rparr>\<rparr>"
  let ?c2 = "example_ct\<lparr>data_' := (data_' example_ct)\<lparr>elems := (replicate 32 0)[0 := 5]\<rparr>\<rparr>"
  note t = isTransparent_iff [OF valid_example_ct]
  have pw: "poly_words example_ct = 16" by (simp add: poly_words_def example_ct_def)
  have es: "elems (data_' example_ct) = replicate 32 0" by (simp add: example_ct_def)
  from t have a: "isTransparent example_ct = Inr True"
    by (simp add: pw es)
  have w: "coeff_assign example_ct 16 1 = Inr ?c1"
    by (simp add: coeff_assign_def arr_size_def es)
  from t have "poly_words example_ct \<le> unat (16 :: size_t) \<and> (1 :: ct_coeff_type) \<noteq> 0
                 \<and> coeff_assign example_ct 16 1 = Inr ?c1
               \<longrightarrow> isTransparent ?c1 = Inr False"
    by blast
  with w have b: "isTransparent ?c1 = Inr False" by (simp add: pw)
  from t have "length ((replicate 32 0)[0 := 5 :: ct_coeff_type]) = length (elems (data_' example_ct))
                 \<and> (\<forall>j. poly_words example_ct \<le> j \<and> j < length ((replicate 32 0)[0 := 5 :: ct_coeff_type])
                        \<longrightarrow> (replicate 32 0)[0 := 5 :: ct_coeff_type] ! j = elems (data_' example_ct) ! j)
               \<longrightarrow> isTransparent ?c2 = isTransparent example_ct"
    by blast
  then have "isTransparent ?c2 = isTransparent example_ct"
    by (simp add: pw es)
  with a b valid_example_ct show ?thesis by simp
qed

text \<open>
  C2. A call of \<^verbatim>\<open>reserve\<close> or \<^verbatim>\<open>resize\<close> (any overload) that fails leaves the whole
  state of the container, metadata and buffer, equal to the state before the call; and the
  calls do fail for an unknown parameter identifier, for a capacity or size below 2, and
  when the product of the capacity or size with \<open>N * K\<close> exceeds 64 bits.
\<close>

theorem failed_reserve_resize_unchanged:
  "(fst (reserve ctx pid n c) \<noteq> None \<longrightarrow> snd (reserve ctx pid n c) = c)
   \<and> (fst (reserve_ctx ctx n c) \<noteq> None \<longrightarrow> snd (reserve_ctx ctx n c) = c)
   \<and> (fst (reserve_cap n c) \<noteq> None \<longrightarrow> snd (reserve_cap n c) = c)
   \<and> (fst (resize ctx pid n c) \<noteq> None \<longrightarrow> snd (resize ctx pid n c) = c)
   \<and> (fst (resize_ctx ctx n c) \<noteq> None \<longrightarrow> snd (resize_ctx ctx n c) = c)
   \<and> (fst (resize_size n c) \<noteq> None \<longrightarrow> snd (resize_size n c) = c)
   \<and> (get_parms ctx pid = None \<longrightarrow>
        reserve ctx pid n c = (Some InvalidArgument, c)
        \<and> resize ctx pid n c = (Some InvalidArgument, c))
   \<and> (get_parms ctx pid \<noteq> None \<and> n < 2 \<longrightarrow>
        reserve ctx pid n c = (Some InvalidArgument, c)
        \<and> resize ctx pid n c = (Some InvalidArgument, c))
   \<and> (\<forall>N K. get_parms ctx pid = Some (N, K) \<and> \<not> n < 2
              \<and> \<not> unat n * (unat N * unat K) < 2 ^ 64 \<longrightarrow>
        reserve ctx pid n c = (Some Overflow, c)
        \<and> resize ctx pid n c = (Some InvalidArgument, c))"
proof (intro conjI impI allI)
  assume "fst (reserve ctx pid n c) \<noteq> None"
  then show "snd (reserve ctx pid n c) = c" by (rule reserve_failure)
next
  assume "fst (reserve_ctx ctx n c) \<noteq> None"
  then show "snd (reserve_ctx ctx n c) = c"
    unfolding reserve_ctx_def by (rule reserve_failure)
next
  assume "fst (reserve_cap n c) \<noteq> None"
  then show "snd (reserve_cap n c) = c"
    unfolding reserve_cap_def by (rule reserveInternal_failure)
next
  assume "fst (resize ctx pid n c) \<noteq> None"
  then show "snd (resize ctx pid n c) = c" by (rule resize_failure)
next
  assume "fst (resize_ctx ctx n c) \<noteq> None"
  then show "snd (resize_ctx ctx n c) = c"
    unfolding resize_ctx_def by (rule resize_failure)
next
  assume "fst (resize_size n c) \<noteq> None"
  then show "snd (resize_size n c) = c"
    unfolding resize_size_def by (rule resizeInternal_failure)
next
  assume "get_parms ctx pid = None"
  then show "reserve ctx pid n c = (Some InvalidArgument, c)"
    and "resize ctx pid n c = (Some InvalidArgument, c)"
    by (simp_all add: reserve_def resize_def)
next
  assume h: "get_parms ctx pid \<noteq> None \<and> n < 2"
  then obtain N K where "get_parms ctx pid = Some (N, K)" by auto
  with h show "reserve ctx pid n c = (Some InvalidArgument, c)"
    and "resize ctx pid n c = (Some InvalidArgument, c)"
    by (simp_all add: reserve_def resize_def reserveInternal_rejects(1)
        resizeInternal_rejects(1))
next
  fix N K
  assume h: "get_parms ctx pid = Some (N, K) \<and> \<not> n < 2
              \<and> \<not> unat n * (unat N * unat K) < 2 ^ 64"
  then have a: "\<not> n < 2" and b: "\<not> unat n * (unat N * unat K) < 2 ^ 64" by simp_all
  from h show "reserve ctx pid n c = (Some Overflow, c)"
    by (simp add: reserve_def reserveInternal_rejects(2) [OF a b])
  from h show "resize ctx pid n c = (Some InvalidArgument, c)"
    by (simp add: resize_def resizeInternal_rejects(2) [OF a b])
qed

theorem failed_reserve_resize_unchanged_witness:
  "fst (reserve example_context 1 0x1000000000000000 Ciphertext_default) = Some Overflow
   \<and> snd (reserve example_context 1 0x1000000000000000 Ciphertext_default) = Ciphertext_default
   \<and> fst (resize example_context 7 2 example_ct) = Some InvalidArgument
   \<and> snd (resize example_context 7 2 example_ct) = example_ct
   \<and> fst (resize_size 1 example_ct) = Some InvalidArgument
   \<and> snd (resize_size 1 example_ct) = example_ct
   \<and> fst (reserve_ctx example_context 1 example_ct) = Some InvalidArgument
   \<and> snd (reserve_ctx example_context 1 example_ct) = example_ct"
proof -
  have g1: "get_parms example_context 1 = Some (8, 2)"
    and g7: "get_parms example_context 7 = None"
    and fp: "firstParmsID example_context = 1"
    by (simp_all add: example_context_def)
  have a: "fst (reserve example_context 1 0x1000000000000000 Ciphertext_default) = Some Overflow"
    by (simp add: reserve_def g1 reserveInternal_def mul_safe_def SEAL_CIPHERTEXT_SIZE_MIN_def
        word_less_nat_alt)
  have b: "fst (resize example_context 7 2 example_ct) = Some InvalidArgument"
    by (simp add: resize_def g7)
  have c: "fst (resize_size 1 example_ct) = Some InvalidArgument"
    by (simp add: resize_size_def resizeInternal_def SEAL_CIPHERTEXT_SIZE_MIN_def)
  have d: "fst (reserve_ctx example_context 1 example_ct) = Some InvalidArgument"
    by (simp add: reserve_ctx_def fp reserve_def g1 reserveInternal_def
        SEAL_CIPHERTEXT_SIZE_MIN_def)
  from failed_reserve_resize_unchanged
         [of example_context 1 "0x1000000000000000" Ciphertext_default] a
  have a': "snd (reserve example_context 1 0x1000000000000000 Ciphertext_default)
              = Ciphertext_default" by simp
  from failed_reserve_resize_unchanged [of example_context 7 2 example_ct] b
  have b': "snd (resize example_context 7 2 example_ct) = example_ct" by simp
  from failed_reserve_resize_unchanged [of example_context 1 1 example_ct] c
  have c': "snd (resize_size 1 example_ct) = example_ct" by simp
  from failed_reserve_resize_unchanged [of example_context 1 1 example_ct] d
  have d': "snd (reserve_ctx example_context 1 example_ct) = example_ct" by simp
  show ?thesis by (intro conjI a a' b b' c c' d d')
qed

text \<open>
  C3. \<^verbatim>\<open>release()\<close> cannot fail (it is a total function with no error result). After
  it the parameter identifier is the zero sentinel, the transform-domain flag is false,
  size, degree and modulus count are 0, the scale is 1.0, the correction factor is 1 and
  the backing buffer holds nothing and has no allocation; releasing again changes nothing.
\<close>

theorem release_resets_and_idempotent:
  "parmsID (release c) = parmsIDZero
   \<and> isNttForm (release c) = False
   \<and> size_ct (release c) = 0
   \<and> polyModulusDegree (release c) = 0
   \<and> coeffModulusSize (release c) = 0
   \<and> scale (release c) = 1
   \<and> correctionFactor (release c) = 1
   \<and> elems (data_' (release c)) = []
   \<and> arr_capacity (data_' (release c)) = 0
   \<and> release (release c) = release c"
  by (simp add: release_def parmsID_def isNttForm_def size_ct_def polyModulusDegree_def
      coeffModulusSize_def scale_def correctionFactor_def arr_release_def arr_empty_def
      arr_capacity_def)

text \<open>
  C4. In every state with the documented layout, \<^verbatim>\<open>hasSeedMarker()\<close> returns true if
  and only if the size is 2 and the coefficient at flat offset \<open>N * K\<close>, the first residue
  word of the second polynomial, read through the checked accessor, is the all-ones word
  \<open>0xFFFFFFFFFFFFFFFF\<close>.
\<close>

theorem hasSeedMarker_iff:
  assumes v: "valid_layout c"
  shows "hasSeedMarker c =
           Inr (size_' c = 2
                \<and> coeff_at c (poly_modulus_degree_' c * coeff_modulus_size_' c)
                    = Inr 0xFFFFFFFFFFFFFFFF)"
proof (cases "size_' c = 2")
  case False
  then show ?thesis by (simp add: hasSeedMarker_def)
next
  case True
  from v have len: "length (elems (data_' c)) = unat (size_' c) * poly_words c"
    by (simp add: valid_layout_def)
  note p2 = valid_layout_count(2) [OF v]
  show ?thesis
  proof (cases "elems (data_' c) = []")
    case e: True
    then show ?thesis
      by (simp add: hasSeedMarker_def arr_size_def coeff_at_def arr_at_def)
  next
    case ne: False
    have nz: "poly_words c \<noteq> 0"
    proof
      assume "poly_words c = 0"
      with len have "length (elems (data_' c)) = 0" by simp
      with ne show False by simp
    qed
    have one: "(1 :: size_t) < size_' c" by (simp add: True)
    from data_in_range [OF v nz one]
    have d: "data c 1 = Inr (Elem (poly_words c))"
      and b: "poly_words c + poly_words c \<le> length (elems (data_' c))" by simp_all
    from b nz have lt: "poly_words c < length (elems (data_' c))" by simp
    with ne True d show ?thesis
      by (simp add: hasSeedMarker_def arr_size_def coeff_at_def arr_at_def p2)
  qed
qed

theorem hasSeedMarker_iff_witness:
  "valid_layout example_seeded \<and> hasSeedMarker example_seeded = Inr True
   \<and> size_' example_seeded = 2 \<and> coeff_at example_seeded 16 = Inr 0xFFFFFFFFFFFFFFFF"
  using hasSeedMarker_iff [OF valid_example_seeded] valid_example_seeded
  by (simp add: example_seeded_def example_ct_def coeff_at_def arr_at_def arr_size_def)



text \<open>
  C6 (amended). In every state with the documented layout, \<^verbatim>\<open>data(i)\<close> returns the
  null pointer whenever \<open>N * K = 0\<close>, whatever the index; it fails with OutOfRange whenever
  \<open>N * K > 0\<close> and \<open>i \<ge> size\<close>; and for \<open>i < size\<close> with \<open>N * K > 0\<close> it returns the start of
  polynomial \<open>i\<close>, exactly \<open>i * N * K\<close> words past the start of the buffer, with the whole
  polynomial inside the logical contents.
\<close>

theorem data_poly_index:
  assumes v: "valid_layout c"
  shows "(poly_words c = 0 \<longrightarrow> data c i = Inr Null)
       \<and> (poly_words c \<noteq> 0 \<and> size_' c \<le> i \<longrightarrow> data c i = Inl OutOfRange)
       \<and> (poly_words c \<noteq> 0 \<and> i < size_' c
            \<longrightarrow> data c i = Inr (Elem (unat i * poly_words c))
                \<and> unat i * poly_words c + poly_words c \<le> length (elems (data_' c)))"
proof (intro conjI impI)
  note p1 = valid_layout_count(1) [OF v] and p2 = valid_layout_count(2) [OF v]
  {
    assume "poly_words c = 0"
    with p2 have "poly_modulus_degree_' c * coeff_modulus_size_' c = 0"
      by (simp add: unat_0_iff)
    then show "data c i = Inr Null" by (simp add: data_def p1)
  }
  {
    assume h: "poly_words c \<noteq> 0 \<and> size_' c \<le> i"
    with p2 have "poly_modulus_degree_' c * coeff_modulus_size_' c \<noteq> 0"
      by (metis unat_0)
    with h show "data c i = Inl OutOfRange" by (simp add: data_def p1)
  }
  {
    assume h: "poly_words c \<noteq> 0 \<and> i < size_' c"
    then show "data c i = Inr (Elem (unat i * poly_words c))"
      and "unat i * poly_words c + poly_words c \<le> length (elems (data_' c))"
      using data_in_range [OF v] by blast+
  }
qed

theorem data_poly_index_witness:
  "valid_layout example_ct \<and> valid_layout Ciphertext_default
   \<and> data Ciphertext_default 5 = Inr Null
   \<and> data example_ct 2 = Inl OutOfRange
   \<and> data example_ct 1 = Inr (Elem 16)
   \<and> data example_ct 0 = Inr (Elem 0)"
proof -
  have pw: "poly_words example_ct = 16" by (simp add: poly_words_def example_ct_def)
  have pd: "poly_words Ciphertext_default = 0"
    by (simp add: poly_words_def Ciphertext_default_def)
  have s: "size_' example_ct = 2" by (simp add: example_ct_def)
  from data_poly_index [OF valid_default, of 5] pd
  have a: "data Ciphertext_default 5 = Inr Null" by simp
  from data_poly_index [OF valid_example_ct, of 2] pw s
  have b: "data example_ct 2 = Inl OutOfRange" by simp
  from data_poly_index [OF valid_example_ct, of 1] pw s
  have c: "data example_ct 1 = Inr (Elem 16)" by simp
  from data_poly_index [OF valid_example_ct, of 0] pw s
  have d: "data example_ct 0 = Inr (Elem 0)" by simp
  from a b c d valid_default valid_example_ct show ?thesis by simp
qed

text \<open>
  C6 as stated fails: on the default-constructed ciphertext the index 0 is not below the
  size 0, yet \<^verbatim>\<open>data(0)\<close> returns the null pointer, because the test for \<open>N * K = 0\<close>
  comes first.
\<close>

theorem data_out_of_range_counterexample:
  "valid_layout Ciphertext_default
   \<and> size_' Ciphertext_default \<le> 0
   \<and> poly_words Ciphertext_default = 0
   \<and> data Ciphertext_default 0 = Inr Null
   \<and> data Ciphertext_default 0 \<noteq> Inl OutOfRange"
  by (simp add: valid_layout_def poly_words_def data_def mul_safe_def Ciphertext_default_def
      arr_empty_def)



text \<open>
  C8 (amended). \<^verbatim>\<open>sizeCapacity() >= size()\<close> holds after default construction and after
  \<^verbatim>\<open>release\<close>. It is preserved by \<^verbatim>\<open>reserve\<close> (each overload), by copy, and by move
  for the object that receives the members; \<^verbatim>\<open>resize\<close> (each overload) preserves it
  whenever \<open>N * K > 0\<close> afterwards. In every reachable state the allocated length is at
  least the length of the logical buffer, and \<^verbatim>\<open>sizeCapacity() >= size()\<close> holds in every
  reachable state whose buffer holds its \<open>size * N * K\<close> coefficients with \<open>N * K > 0\<close>.
\<close>

theorem capacity_invariant:
  "(reachable c \<longrightarrow>
      length (elems (data_' c)) \<le> unat (arr_capacity (data_' c))
      \<and> (poly_words c \<noteq> 0 \<and> length (elems (data_' c)) = unat (size_ct c) * poly_words c
           \<longrightarrow> size_ct c \<le> sizeCapacity c))
   \<and> size_ct Ciphertext_default \<le> sizeCapacity Ciphertext_default
   \<and> size_ct (release c) \<le> sizeCapacity (release c)
   \<and> (size_ct c \<le> sizeCapacity c \<longrightarrow>
        size_ct (snd (reserve ctx pid n c)) \<le> sizeCapacity (snd (reserve ctx pid n c))
        \<and> size_ct (snd (reserve_ctx ctx n c)) \<le> sizeCapacity (snd (reserve_ctx ctx n c))
        \<and> size_ct (snd (reserve_cap n c)) \<le> sizeCapacity (snd (reserve_cap n c))
        \<and> size_ct (copy_assign d c) \<le> sizeCapacity (copy_assign d c)
        \<and> size_ct (fst (move_construct c)) \<le> sizeCapacity (fst (move_construct c)))
   \<and> (size_ct c \<le> sizeCapacity c \<and> poly_words (snd (resize ctx pid n c)) \<noteq> 0 \<longrightarrow>
        size_ct (snd (resize ctx pid n c)) \<le> sizeCapacity (snd (resize ctx pid n c)))
   \<and> (size_ct c \<le> sizeCapacity c \<and> poly_words (snd (resize_ctx ctx n c)) \<noteq> 0 \<longrightarrow>
        size_ct (snd (resize_ctx ctx n c)) \<le> sizeCapacity (snd (resize_ctx ctx n c)))
   \<and> (size_ct c \<le> sizeCapacity c \<and> poly_words (snd (resize_size n c)) \<noteq> 0 \<longrightarrow>
        size_ct (snd (resize_size n c)) \<le> sizeCapacity (snd (resize_size n c)))"
proof (intro conjI impI)
  assume r: "reachable c"
  then have b: "buffer_layout c" by (rule reachable_buffer_layout)
  then show "length (elems (data_' c)) \<le> unat (arr_capacity (data_' c))"
    by (simp add: buffer_layout_def arr_capacity_def)
  assume h: "poly_words c \<noteq> 0 \<and> length (elems (data_' c)) = unat (size_ct c) * poly_words c"
  with b have "valid_layout c" by (simp add: buffer_layout_def valid_layout_def size_ct_def)
  with h show "size_ct c \<le> sizeCapacity c" by (simp add: size_ct_def valid_layout_capacity)
next
  show "size_ct Ciphertext_default \<le> sizeCapacity Ciphertext_default"
    by (simp add: size_ct_def Ciphertext_default_def)
next
  show "size_ct (release c) \<le> sizeCapacity (release c)"
    by (simp add: size_ct_def release_def)
next
  assume inv: "size_ct c \<le> sizeCapacity c"
  then have inv': "size_' c \<le> sizeCapacity c" by (simp add: size_ct_def)
  show "size_ct (snd (reserve ctx pid n c)) \<le> sizeCapacity (snd (reserve ctx pid n c))"
    unfolding size_ct_def by (rule reserve_capacity_invariant [OF inv'])
  show "size_ct (snd (reserve_ctx ctx n c)) \<le> sizeCapacity (snd (reserve_ctx ctx n c))"
    unfolding size_ct_def reserve_ctx_def by (rule reserve_capacity_invariant [OF inv'])
  show "size_ct (snd (reserve_cap n c)) \<le> sizeCapacity (snd (reserve_cap n c))"
    unfolding size_ct_def reserve_cap_def by (rule reserveInternal_capacity_invariant [OF inv'])
  from inv show "size_ct (copy_assign d c) \<le> sizeCapacity (copy_assign d c)"
    by (simp add: copy_assign_def)
  from inv show "size_ct (fst (move_construct c)) \<le> sizeCapacity (fst (move_construct c))"
    by (simp add: move_construct_def)
next
  assume "size_ct c \<le> sizeCapacity c \<and> poly_words (snd (resize ctx pid n c)) \<noteq> 0"
  then have "size_' c \<le> sizeCapacity c" and "poly_words (snd (resize ctx pid n c)) \<noteq> 0"
    by (simp_all add: size_ct_def)
  then show "size_ct (snd (resize ctx pid n c)) \<le> sizeCapacity (snd (resize ctx pid n c))"
    unfolding size_ct_def by (rule resize_capacity_invariant)
next
  assume "size_ct c \<le> sizeCapacity c \<and> poly_words (snd (resize_ctx ctx n c)) \<noteq> 0"
  then have "size_' c \<le> sizeCapacity c"
    and "poly_words (snd (resize ctx (firstParmsID ctx) n c)) \<noteq> 0"
    by (simp_all add: size_ct_def resize_ctx_def)
  then show "size_ct (snd (resize_ctx ctx n c)) \<le> sizeCapacity (snd (resize_ctx ctx n c))"
    unfolding size_ct_def resize_ctx_def by (rule resize_capacity_invariant)
next
  assume "size_ct c \<le> sizeCapacity c \<and> poly_words (snd (resize_size n c)) \<noteq> 0"
  then have "size_' c \<le> sizeCapacity c"
    and "poly_words (snd (resizeInternal n (poly_modulus_degree_' c) (coeff_modulus_size_' c) c)) \<noteq> 0"
    by (simp_all add: size_ct_def resize_size_def)
  then show "size_ct (snd (resize_size n c)) \<le> sizeCapacity (snd (resize_size n c))"
    unfolding size_ct_def resize_size_def by (rule resizeInternal_capacity_invariant)
qed

theorem capacity_invariant_witness:
  "reachable example_ct
   \<and> length (elems (data_' example_ct)) \<le> unat (arr_capacity (data_' example_ct))
   \<and> poly_words example_ct \<noteq> 0
   \<and> length (elems (data_' example_ct)) = unat (size_ct example_ct) * poly_words example_ct
   \<and> size_ct example_ct \<le> sizeCapacity example_ct
   \<and> size_ct (snd (reserve example_context 1 4 example_ct))
       \<le> sizeCapacity (snd (reserve example_context 1 4 example_ct))
   \<and> size_ct (fst (move_construct example_ct)) \<le> sizeCapacity (fst (move_construct example_ct))
   \<and> poly_words (snd (resize example_context 1 3 example_ct)) \<noteq> 0
   \<and> size_ct (snd (resize example_context 1 3 example_ct))
       \<le> sizeCapacity (snd (resize example_context 1 3 example_ct))
   \<and> poly_words (snd (resize_size 3 example_ct)) \<noteq> 0
   \<and> size_ct (snd (resize_size 3 example_ct)) \<le> sizeCapacity (snd (resize_size 3 example_ct))"
proof -
  note t = capacity_invariant [of example_ct example_context 1 4 example_ct]
    and u = capacity_invariant [of example_ct example_context 1 3 example_ct]
  have pw: "poly_words example_ct \<noteq> 0" by (simp add: poly_words_def example_ct_def)
  have len: "length (elems (data_' example_ct)) = unat (size_ct example_ct) * poly_words example_ct"
    by (simp add: size_ct_def poly_words_def example_ct_def)
  from t reachable_example_ct
  have a: "length (elems (data_' example_ct)) \<le> unat (arr_capacity (data_' example_ct))"
    by blast
  from t reachable_example_ct pw len have inv: "size_ct example_ct \<le> sizeCapacity example_ct"
    by blast
  from t inv
  have b: "size_ct (snd (reserve example_context 1 4 example_ct))
             \<le> sizeCapacity (snd (reserve example_context 1 4 example_ct))"
    and m: "size_ct (fst (move_construct example_ct)) \<le> sizeCapacity (fst (move_construct example_ct))"
    by blast+
  have g: "get_parms example_context 1 = Some (8, 2)" by (simp add: example_context_def)
  have r3: "poly_words (snd (resize example_context 1 3 example_ct)) \<noteq> 0"
    by (simp add: resize_def g resizeInternal_def reserveInternal_def mul_safe_def
        arr_capacity_def SEAL_CIPHERTEXT_SIZE_MIN_def example_ct_def word_less_nat_alt
        poly_words_def)
  have s3: "poly_words (snd (resize_size 3 example_ct)) \<noteq> 0"
    by (simp add: resize_size_def resizeInternal_def reserveInternal_def mul_safe_def
        arr_capacity_def SEAL_CIPHERTEXT_SIZE_MIN_def example_ct_def word_less_nat_alt
        poly_words_def)
  from u inv r3
  have c: "size_ct (snd (resize example_context 1 3 example_ct))
             \<le> sizeCapacity (snd (resize example_context 1 3 example_ct))"
    by blast
  from u inv s3
  have d: "size_ct (snd (resize_size 3 example_ct)) \<le> sizeCapacity (snd (resize_size 3 example_ct))"
    by blast
  show ?thesis by (intro conjI reachable_example_ct a pw len inv b m r3 c s3 d)
qed

text \<open>
  C8 as stated fails. After a move from the sized example the source still has size 2,
  degree 8 and modulus count 2, but no buffer, so \<^verbatim>\<open>sizeCapacity()\<close> returns 0. And
  \<^verbatim>\<open>resize(2)\<close> on the default-constructed ciphertext succeeds with degree and modulus
  count 0, so the size becomes 2 while \<^verbatim>\<open>sizeCapacity()\<close> returns 0.
\<close>

theorem capacity_below_size_counterexample:
  "reachable (snd (move_construct example_ct))
   \<and> poly_words (snd (move_construct example_ct)) = 16
   \<and> size_ct (snd (move_construct example_ct)) = 2
   \<and> sizeCapacity (snd (move_construct example_ct)) = 0
   \<and> \<not> size_ct (snd (move_construct example_ct)) \<le> sizeCapacity (snd (move_construct example_ct))
   \<and> reachable (snd (resize_size 2 Ciphertext_default))
   \<and> fst (resize_size 2 Ciphertext_default) = None
   \<and> size_ct (snd (resize_size 2 Ciphertext_default)) = 2
   \<and> sizeCapacity (snd (resize_size 2 Ciphertext_default)) = 0
   \<and> \<not> size_ct (snd (resize_size 2 Ciphertext_default))
          \<le> sizeCapacity (snd (resize_size 2 Ciphertext_default))"
proof -
  have m: "reachable (snd (move_construct example_ct))"
    by (rule r_move_source [OF reachable_example_ct])
  have m': "poly_words (snd (move_construct example_ct)) = 16
   \<and> size_ct (snd (move_construct example_ct)) = 2
   \<and> sizeCapacity (snd (move_construct example_ct)) = 0
   \<and> \<not> size_ct (snd (move_construct example_ct)) \<le> sizeCapacity (snd (move_construct example_ct))"
    by (simp add: move_construct_def arr_moved_from_def arr_empty_def poly_words_def
        size_ct_def sizeCapacity_def arr_capacity_def example_ct_def)
  have z: "reachable (snd (resize_size 2 Ciphertext_default))"
    by (rule r_resize_size [OF r_default])
  have z': "fst (resize_size 2 Ciphertext_default) = None
   \<and> size_ct (snd (resize_size 2 Ciphertext_default)) = 2
   \<and> sizeCapacity (snd (resize_size 2 Ciphertext_default)) = 0
   \<and> \<not> size_ct (snd (resize_size 2 Ciphertext_default))
          \<le> sizeCapacity (snd (resize_size 2 Ciphertext_default))"
    unfolding resize_size_default
    by (simp add: size_ct_def sizeCapacity_def Ciphertext_default_def)
  from m m' z z' show ?thesis by blast
qed

text \<open>
  C9. In every state, if \<^verbatim>\<open>hasSeedMarker()\<close> returns true then \<^verbatim>\<open>isTransparent()\<close>
  returns false: the marker word is nonzero and lies in the range that
  \<^verbatim>\<open>isTransparent()\<close> scans.
\<close>

theorem seed_marker_not_transparent:
  assumes "hasSeedMarker c = Inr True"
  shows "isTransparent c = Inr False"
proof -
  from assms have ne: "arr_size (data_' c) \<noteq> 0" and s: "size_' c = 2"
    by (auto simp: hasSeedMarker_def split: if_splits)
  with assms obtain off where d: "data c 1 = Inr (Elem off)"
    and lt: "off < length (elems (data_' c))"
    and m: "elems (data_' c) ! off = 0xFFFFFFFFFFFFFFFF"
    by (auto simp: hasSeedMarker_def arr_size_def split: sum.splits pointer.splits if_splits)
  have "\<not> list_all isZero (drop off (elems (data_' c)))"
  proof
    assume "list_all isZero (drop off (elems (data_' c)))"
    then have "\<forall>j. off \<le> j \<and> j < length (elems (data_' c)) \<longrightarrow> isZero (elems (data_' c) ! j)"
      by (simp add: list_all_drop_nth)
    with lt have "isZero (elems (data_' c) ! off)" by blast
    with m show False by (simp add: isZero_def)
  qed
  with ne s d lt show ?thesis
    by (simp add: isTransparent_def arr_cend_def SEAL_CIPHERTEXT_SIZE_MIN_def)
qed

theorem seed_marker_not_transparent_witness:
  "hasSeedMarker example_seeded = Inr True \<and> isTransparent example_seeded = Inr False"
proof -
  have h: "hasSeedMarker example_seeded = Inr True"
    by (simp add: hasSeedMarker_def data_def mul_safe_def arr_size_def word_le_nat_alt
        example_seeded_def example_ct_def)
  from seed_marker_not_transparent [OF h] h show ?thesis by simp
qed

text \<open>
  C10. The default-constructed ciphertext has size, degree, modulus count and capacity 0,
  the zero parameter identifier, a false transform-domain flag, scale 1.0 and correction
  factor 1; on it \<^verbatim>\<open>isTransparent()\<close> returns true and \<^verbatim>\<open>hasSeedMarker()\<close> returns
  false.
\<close>

theorem default_constructed:
  "size_ct Ciphertext_default = 0
   \<and> polyModulusDegree Ciphertext_default = 0
   \<and> coeffModulusSize Ciphertext_default = 0
   \<and> sizeCapacity Ciphertext_default = 0
   \<and> parmsID Ciphertext_default = parmsIDZero
   \<and> isNttForm Ciphertext_default = False
   \<and> scale Ciphertext_default = 1
   \<and> correctionFactor Ciphertext_default = 1
   \<and> isTransparent Ciphertext_default = Inr True
   \<and> hasSeedMarker Ciphertext_default = Inr False"
  by (simp add: Ciphertext_default_def size_ct_def polyModulusDegree_def coeffModulusSize_def
      sizeCapacity_def parmsID_def isNttForm_def scale_def correctionFactor_def
      isTransparent_def hasSeedMarker_def arr_size_def arr_empty_def)

end
